theory Spec2Isabelle
  imports
    Complex_Main
    "HOL-Library.Char_ord"
    "HOL-Library.List_Lexorder"
    "HOL-Library.Product_Lexorder"
    "HOL-Library.Multiset"
begin

section \<open>The records dashboard (dash.py)\<close>

text \<open>
  The program reads a table of powerlifting records with pandas, normalises it
  (\<open>load_data\<close>), selects rows from the user's filter settings or search text
  (\<open>render_filters\<close>) and keeps the heaviest lift of every weight class and lift
  (\<open>best_per_class_and_lift\<close>). The table renderer and the page layout are not
  modelled.

  A data frame is a list of rows, in row order. Strings are lists of 8-bit characters,
  read as ASCII text. A missing cell (pandas' NaN) is \<open>None\<close>. Every column of the
  frame that \<open>read_csv\<close> returns is taken to hold text, as a pandas object column
  does: a number is the text of the cell it was read from, and the string methods
  under \<open>.str\<close> leave a missing cell missing.

  Three library functions are parameters of the model: \<open>to_numeric\<close> stands for
  \<open>pd.to_numeric(_, errors="coerce")\<close> on one cell (\<open>None\<close> is NaN), \<open>re_compile\<close>
  stands for Python's \<open>re.compile\<close>, giving the \<open>search\<close> predicate of the compiled
  pattern (\<open>None\<close> when \<open>re.error\<close> is raised), and \<open>argsort\<close> stands for numpy's
  \<open>argsort\<close> of the default kind, which the sort on the one column \<open>Weight\<close> calls.
  This kind is not stable: numpy promises positions that sort the keys (\<open>argsort_ok\<close>)
  and leaves the order of equal keys open. The general theorems hold for every choice
  of the parameters, under the stated assumptions; closed examples use the small
  interpretations given after the program.

  The sort on several columns asks numpy for a stable sort and is modelled by the
  stable \<open>sort_key\<close>.
\<close>

subsection \<open>Strings\<close>

definition is_space :: "char \<Rightarrow> bool" where
  \<comment> \<open>\<open>str.isspace\<close> on ASCII: tab, newline, VT, FF, CR, FS, GS, RS, US and blank\<close>
  "is_space c = (of_char c \<in> {9, 10, 11, 12, 13, 28, 29, 30, 31, 32 :: nat})"

definition strip :: "string \<Rightarrow> string" where
  \<comment> \<open>\<open>str.strip()\<close>\<close>
  "strip s = rev (dropWhile is_space (rev (dropWhile is_space s)))"

definition lower_char :: "char \<Rightarrow> char" where
  "lower_char c =
     (case map_of (zip ''ABCDEFGHIJKLMNOPQRSTUVWXYZ'' ''abcdefghijklmnopqrstuvwxyz'') c of
        Some l \<Rightarrow> l
      | None \<Rightarrow> c)"

definition lower :: "string \<Rightarrow> string" where
  \<comment> \<open>\<open>str.lower()\<close>\<close>
  "lower s = map lower_char s"

function split_ws :: "string \<Rightarrow> string list" where
  \<comment> \<open>\<open>str.split()\<close> with no argument: the maximal runs of non-whitespace characters\<close>
  "split_ws [] = []"
| "split_ws (c # cs) =
     (if is_space c then split_ws cs
      else (c # takeWhile (\<lambda>x. \<not> is_space x) cs) # split_ws (dropWhile (\<lambda>x. \<not> is_space x) cs))"
  by pat_completeness auto
termination
  by (relation "measure length") (auto simp: length_dropWhile_le less_Suc_eq_le)

definition endswith :: "string \<Rightarrow> string \<Rightarrow> bool" where
  \<comment> \<open>\<open>s.endswith(suf)\<close>\<close>
  "endswith s suf = (length suf \<le> length s \<and> drop (length s - length suf) s = suf)"

fun is_substring :: "string \<Rightarrow> string \<Rightarrow> bool" where
  \<comment> \<open>Python's \<open>p in s\<close> on strings\<close>
  "is_substring p [] = (p = [])"
| "is_substring p (c # cs) = (take (length p) (c # cs) = p \<or> is_substring p cs)"

definition replace_DT_end :: "string \<Rightarrow> string" where
  \<comment> \<open>\<open>re.sub(r"DT$", "", s)\<close>: \<open>$\<close> matches at the end of the string and also just
      before a newline that is its last character\<close>
  "replace_DT_end s =
     (if endswith s ''DT'' then take (length s - 2) s
      else if endswith s [CHR ''D'', CHR ''T'', CHR 0x0A] then take (length s - 3) s @ [CHR 0x0A]
      else s)"

subsection \<open>Constants\<close>

definition LIFT_MAP :: "(string \<times> string) list" where
  "LIFT_MAP = [(''S'', ''Squat''), (''B'', ''Bench''), (''D'', ''Deadlift''),
               (''T'', ''Total''), (''Total'', ''Total'')]"

definition LIFT_ORDER :: "string list" where
  "LIFT_ORDER = [''Squat'', ''Bench'', ''Deadlift'', ''Total'']"

definition INVALID_WEIGHT_CLASSES :: "string set" where
  "INVALID_WEIGHT_CLASSES = {''736'', ''737'', ''738'', ''739'', ''cell''}"

subsection \<open>Rows\<close>

text \<open>A row of the frame returned by \<open>read_csv\<close>, with the header names trimmed.\<close>

record csv_row =
  csv_Full_Name :: "string option"
  csv_Weight :: "string option"
  csv_Class :: "string option"
  csv_Division :: "string option"
  csv_Lift :: "string option"
  csv_Date :: "string option"
  csv_Equipment :: "string option"
  csv_Record_Type :: "string option"
  csv_Record_Name :: "string option"
  csv_Location :: "string option"
  csv_Sex :: "string option"

text \<open>
  A weight of the normalised frame: a number, or the empty string that the final
  \<open>fillna("")\<close> writes where the numeric conversion gave NaN.
\<close>

datatype weight = Num rat | Blank

text \<open>
  A row of the normalised frame. The column \<open>Date_parsed\<close> is left out: no function
  of the program reads it.
\<close>

record row =
  Full_Name :: string
  Weight :: weight
  Class :: string
  Division :: string
  Division_raw :: string
  Division_base :: string
  Testing :: string
  Lift :: string
  Date :: string
  Equipment :: string
  Record_Type :: string
  Record_Name :: string
  Location :: string
  Sex :: string

datatype error = TypeError | KeyError | ReError | IndexError

subsection \<open>load_data\<close>

definition fillna :: "string option \<Rightarrow> string" where
  \<comment> \<open>\<open>fillna("")\<close> on a text cell\<close>
  "fillna c = (case c of None \<Rightarrow> '''' | Some s \<Rightarrow> s)"

definition astype_str :: "string option \<Rightarrow> string" where
  \<comment> \<open>\<open>astype(str)\<close>: a missing cell becomes the text \<open>nan\<close>\<close>
  "astype_str c = (case c of None \<Rightarrow> ''nan'' | Some s \<Rightarrow> s)"

definition replace_lift :: "string \<Rightarrow> string" where
  \<comment> \<open>\<open>Series.replace(LIFT_MAP)\<close> on one value\<close>
  "replace_lift s = (case map_of LIFT_MAP s of Some v \<Rightarrow> v | None \<Rightarrow> s)"

definition testing_of :: "string \<Rightarrow> string" where
  \<comment> \<open>\<open>endswith("DT")\<close> mapped through \<open>{True: "Drug Tested", False: "Untested"}\<close>\<close>
  "testing_of s = (if endswith s ''DT'' then ''Drug Tested'' else ''Untested'')"

definition normalize_row :: "(string \<Rightarrow> rat option) \<Rightarrow> csv_row \<Rightarrow> row" where
  \<comment> \<open>The column assignments of lines 29 to 37 on one row. The string methods under
      \<open>.str\<close> and \<open>map\<close> leave a missing cell missing, and \<open>fillna\<close> comes last.\<close>
  "normalize_row to_numeric r =
     (let weight_num = Option.bind (csv_Weight r) to_numeric;
          class_str = strip (astype_str (csv_Class r));
          division_raw = map_option strip (csv_Division r);
          division_base = map_option replace_DT_end division_raw;
          testing = map_option testing_of division_raw;
          lift = map_option replace_lift (csv_Lift r)
      in \<lparr> Full_Name = fillna (csv_Full_Name r),
           Weight = (case weight_num of None \<Rightarrow> Blank | Some w \<Rightarrow> Num w),
           Class = class_str,
           Division = fillna (csv_Division r),
           Division_raw = fillna division_raw,
           Division_base = fillna division_base,
           Testing = fillna testing,
           Lift = fillna lift,
           Date = fillna (csv_Date r),
           Equipment = fillna (csv_Equipment r),
           Record_Type = fillna (csv_Record_Type r),
           Record_Name = fillna (csv_Record_Name r),
           Location = fillna (csv_Location r),
           Sex = fillna (csv_Sex r) \<rparr>)"

definition load_data :: "(string \<Rightarrow> rat option) \<Rightarrow> csv_row list \<Rightarrow> row list" where
  \<comment> \<open>Line 28 keeps the rows with a name and a weight; line 31 drops the rows whose
      trimmed class is in \<open>INVALID_WEIGHT_CLASSES\<close>; the rest works row by row.\<close>
  "load_data to_numeric df =
     filter (\<lambda>r. Class r \<notin> INVALID_WEIGHT_CLASSES)
       (map (normalize_row to_numeric)
         (filter (\<lambda>r. csv_Full_Name r \<noteq> None \<and> csv_Weight r \<noteq> None) df))"

subsection \<open>render_filters\<close>

record filters =
  sex :: string
  division :: string
  testing_status :: string
  equipment :: string
  weight_class :: string
  search :: string

definition equipment_display :: "string \<Rightarrow> string" where
  "equipment_display e = (if e = ''Multi-ply'' then ''Equipped'' else if e = ''Bare'' then ''Raw'' else e)"

definition equipment_map :: "row list \<Rightarrow> string \<Rightarrow> string option" where
  \<comment> \<open>\<open>dict(zip(equipment_display, equipment_options))\<close>: a later pair replaces an
      earlier one with the same key\<close>
  "equipment_map df =
     (let equipment_options = sort (remdups (map Equipment df))
      in map_of (rev (zip (map equipment_display equipment_options) equipment_options)))"

definition term_mask :: "(string \<Rightarrow> bool) \<Rightarrow> row \<Rightarrow> bool" where
  \<comment> \<open>The disjunction of the seven \<open>str.lower().str.contains(term)\<close> masks\<close>
  "term_mask m r =
     (m (lower (Full_Name r)) \<or> m (lower (Record_Name r)) \<or> m (lower (Class r))
      \<or> m (lower (Division_base r)) \<or> m (lower (Equipment r)) \<or> m (lower (Testing r))
      \<or> m (lower (Location r)))"

fun search_terms :: "(string \<Rightarrow> (string \<Rightarrow> bool) option) \<Rightarrow> string list \<Rightarrow> row list \<Rightarrow> error + row list" where
  \<comment> \<open>The loop over the terms; \<open>str.contains\<close> compiles its pattern before it looks
      at any row\<close>
  "search_terms re_compile [] filtered = Inr filtered"
| "search_terms re_compile (t # ts) filtered =
     (case re_compile t of
        None \<Rightarrow> Inl ReError
      | Some m \<Rightarrow> search_terms re_compile ts (filter (term_mask m) filtered))"

definition render_filters ::
  "(string \<Rightarrow> (string \<Rightarrow> bool) option) \<Rightarrow> row list \<Rightarrow> filters \<Rightarrow> error + (row list \<times> filters)" where
  \<comment> \<open>\<open>sel\<close> holds the values the six widgets return. The option lists offered by
      the widgets are not modelled.\<close>
  "render_filters re_compile df sel =
     (if search sel \<noteq> [] then
        (case search_terms re_compile (split_ws (lower (search sel))) df of
           Inl e \<Rightarrow> Inl e
         | Inr filtered \<Rightarrow> Inr (filtered, sel))
      else
        (let f1 = (if sex sel \<noteq> ''All'' then filter (\<lambda>r. Sex r = sex sel) df else df);
             f2 = (if division sel \<noteq> ''All'' then filter (\<lambda>r. Division_base r = division sel) f1 else f1);
             f3 = (if testing_status sel \<noteq> ''All'' then filter (\<lambda>r. Testing r = testing_status sel) f2 else f2)
         in if equipment sel \<noteq> ''All'' \<and> equipment_map df (equipment sel) = None then Inl KeyError
            else
              (let f4 = (if equipment sel \<noteq> ''All''
                         then filter (\<lambda>r. Some (Equipment r) = equipment_map df (equipment sel)) f3 else f3);
                   f5 = (if weight_class sel \<noteq> ''All'' then filter (\<lambda>r. Class r = weight_class sel) f4 else f4)
               in Inr (f5, sel))))"

definition filtered_rows :: "error + (row list \<times> filters) \<Rightarrow> error + row list" where
  \<comment> \<open>The first component of the pair that \<open>render_filters\<close> returns\<close>
  "filtered_rows res = (case res of Inl e \<Rightarrow> Inl e | Inr (filtered, sel) \<Rightarrow> Inr filtered)"

definition search_fields :: "row \<Rightarrow> string list" where
  \<comment> \<open>The seven columns that the search reads\<close>
  "search_fields r =
     [Full_Name r, Record_Name r, Class r, Division_base r, Equipment r, Testing r, Location r]"

subsection \<open>best_per_class_and_lift\<close>

fun weight_val :: "weight \<Rightarrow> rat" where
  "weight_val (Num w) = w"
| "weight_val Blank = 0"

definition sort_desc :: "(rat list \<Rightarrow> nat list) \<Rightarrow> ('a \<Rightarrow> rat) \<Rightarrow> 'a list \<Rightarrow> error + 'a list" where
  \<comment> \<open>The descending order of pandas' \<open>nargsort\<close>, followed by \<open>take\<close>: the items
      are reversed, \<open>argsort\<close> gives the positions that put their keys in ascending
      order, the items are taken at these positions and the result is reversed. A
      position outside the frame raises.\<close>
  "sort_desc argsort f xs =
     (let items = rev xs; indexer = argsort (map f items)
      in if list_all (\<lambda>i. i < length items) indexer
         then Inr (rev (map ((!) items) indexer))
         else Inl IndexError)"

definition sort_values_Weight_desc :: "(rat list \<Rightarrow> nat list) \<Rightarrow> row list \<Rightarrow> error + row list" where
  \<comment> \<open>\<open>sort_values("Weight", ascending=False)\<close>, of the default sort kind. A column
      that holds numbers and empty strings cannot be compared and raises.\<close>
  "sort_values_Weight_desc argsort df =
     (if (\<exists>r \<in> set df. Weight r = Blank) \<and> (\<exists>r \<in> set df. Weight r \<noteq> Blank) then Inl TypeError
      else sort_desc argsort (\<lambda>r. weight_val (Weight r)) df)"

definition class_lift :: "row \<Rightarrow> string \<times> string" where
  \<comment> \<open>The columns named by \<open>subset=["Class", "Lift"]\<close>\<close>
  "class_lift r = (Class r, Lift r)"

function drop_duplicates :: "row list \<Rightarrow> row list" where
  \<comment> \<open>\<open>drop_duplicates(subset=["Class", "Lift"])\<close>: the first row of every pair stays\<close>
  "drop_duplicates [] = []"
| "drop_duplicates (r # rs) =
     r # drop_duplicates (filter (\<lambda>s. class_lift s \<noteq> class_lift r) rs)"
  by pat_completeness auto
termination
  by (relation "measure length") (auto simp: less_Suc_eq_le)

fun index_of :: "'a list \<Rightarrow> 'a \<Rightarrow> nat" where
  \<comment> \<open>\<open>list.index\<close>, used only for members of the list\<close>
  "index_of [] x = 0"
| "index_of (y # ys) x = (if x = y then 0 else Suc (index_of ys x))"

definition lift_order :: "string \<Rightarrow> nat" where
  "lift_order x = (if x \<in> set LIFT_ORDER then index_of LIFT_ORDER x else 99)"

definition class_num :: "(string \<Rightarrow> rat option) \<Rightarrow> string \<Rightarrow> bool \<times> rat" where
  \<comment> \<open>The sort key of \<open>_class_num\<close>: NaN is placed after every number\<close>
  "class_num to_numeric c = (case to_numeric c of Some q \<Rightarrow> (False, q) | None \<Rightarrow> (True, 0))"

definition sort_columns :: "(string \<Rightarrow> rat option) \<Rightarrow> row \<Rightarrow> (bool \<times> rat) \<times> string \<times> nat" where
  \<comment> \<open>The key of \<open>sort_values(["_class_num", "Class", "_lift_order"])\<close>\<close>
  "sort_columns to_numeric r = (class_num to_numeric (Class r), Class r, lift_order (Lift r))"

definition best_per_class_and_lift ::
  "(rat list \<Rightarrow> nat list) \<Rightarrow> (string \<Rightarrow> rat option) \<Rightarrow> row list \<Rightarrow> error + row list" where
  "best_per_class_and_lift argsort to_numeric df =
     (case sort_values_Weight_desc argsort df of
        Inl e \<Rightarrow> Inl e
      | Inr sorted_df \<Rightarrow> Inr (sort_key (sort_columns to_numeric) (drop_duplicates sorted_df)))"

definition argsort_ok :: "(rat list \<Rightarrow> nat list) \<Rightarrow> bool" where
  \<comment> \<open>What numpy promises of \<open>argsort\<close> for every sort kind: the result holds every
      position of the array once, and the keys read in this order ascend. It says
      nothing on the order of equal keys.\<close>
  "argsort_ok argsort =
     (\<forall>ks. mset (argsort ks) = mset [0..<length ks] \<and> sorted (map ((!) ks) (argsort ks)))"

subsection \<open>Interpretations of the library functions for closed examples\<close>

definition is_digit :: "char \<Rightarrow> bool" where
  "is_digit c = (CHR ''0'' \<le> c \<and> c \<le> CHR ''9'')"

definition digits_val :: "string \<Rightarrow> nat" where
  "digits_val s = foldl (\<lambda>n c. 10 * n + (of_char c - 48)) 0 s"

definition to_numeric_dec :: "string \<Rightarrow> rat option" where
  \<comment> \<open>\<open>pd.to_numeric\<close> on the texts used in the examples: an unsigned decimal numeral
      is its value, a text with no leading digit or with other characters is NaN\<close>
  "to_numeric_dec s =
     (let ip = takeWhile is_digit s; rest = dropWhile is_digit s
      in if ip = [] then None
         else if rest = [] then Some (of_nat (digits_val ip))
         else if hd rest = CHR ''.'' \<and> tl rest \<noteq> [] \<and> list_all is_digit (tl rest)
              then Some (of_nat (digits_val ip) + of_nat (digits_val (tl rest)) / 10 ^ length (tl rest))
         else None)"

definition argsort_ties_reversed :: "rat list \<Rightarrow> nat list" where
  \<comment> \<open>An \<open>argsort\<close> that the default sort kind permits: of equal keys, the later
      position comes first\<close>
  "argsort_ties_reversed ks = map snd (sort_key fst (rev (zip ks [0..<length ks])))"

definition is_meta :: "char \<Rightarrow> bool" where
  \<comment> \<open>The special characters of Python's regular expressions\<close>
  "is_meta c = (c \<in> set (CHR 0x5C # ''.^$*+?{}[]|()''))"

fun match_here :: "string \<Rightarrow> string \<Rightarrow> bool" where
  "match_here [] s = True"
| "match_here (p # ps) [] = False"
| "match_here (p # ps) (c # cs) =
     ((if p = CHR ''.'' then c \<noteq> CHR 0x0A else p = c) \<and> match_here ps cs)"

fun search_dot :: "string \<Rightarrow> string \<Rightarrow> bool" where
  "search_dot p [] = match_here p []"
| "search_dot p (c # cs) = (match_here p (c # cs) \<or> search_dot p cs)"

definition re_compile_dot :: "string \<Rightarrow> (string \<Rightarrow> bool) option" where
  \<comment> \<open>\<open>re.compile(p).search\<close> for the patterns used in the examples, which are made
      of ordinary characters, standing for themselves, and dots, standing for any
      character but a newline. No other pattern is interpreted: it is given \<open>None\<close>.\<close>
  "re_compile_dot p = (if \<exists>c \<in> set p. is_meta c \<and> c \<noteq> CHR ''.'' then None else Some (search_dot p))"

subsection \<open>Example frames\<close>

definition csv_line :: "string \<Rightarrow> string \<Rightarrow> string \<Rightarrow> string option \<Rightarrow> string \<Rightarrow> csv_row" where
  "csv_line name weight_text cls dv lift_code =
     \<lparr> csv_Full_Name = Some name, csv_Weight = Some weight_text, csv_Class = Some cls,
       csv_Division = dv, csv_Lift = Some lift_code, csv_Date = None,
       csv_Equipment = Some ''Bare'', csv_Record_Type = None, csv_Record_Name = None,
       csv_Location = Some ''Manchester'', csv_Sex = Some ''M'' \<rparr>"

definition csv_bad_weight :: "csv_row list" where
  "csv_bad_weight =
     [csv_line ''Ann'' ''abc'' ''100'' (Some ''OpensDT'') ''S'',
      csv_line ''Bob'' ''200'' ''100'' (Some ''Opens'') ''S'']"

definition csv_no_division :: "csv_row list" where
  "csv_no_division =
     [csv_line ''Cy'' ''205'' ''110'' None ''B'',
      csv_line ''Di'' ''150'' ''90'' (Some ''Opens'') ''B'']"

definition csv_sample :: "csv_row list" where
  "csv_sample =
     [csv_line ''Ann'' ''200'' ''100'' (Some ''OpensDT'') ''S'',
      csv_line ''Bob'' ''82.5'' '' cell '' (Some ''Opens'') ''S'',
      csv_line ''Di'' ''205'' ''100'' (Some '' Junior '') ''S'']"

definition lift_row :: "string \<Rightarrow> rat \<Rightarrow> string \<Rightarrow> string \<Rightarrow> row" where
  "lift_row name w cls lft =
     \<lparr> Full_Name = name, Weight = Num w, Class = cls, Division = ''Opens'',
       Division_raw = ''Opens'', Division_base = ''Opens'', Testing = ''Untested'',
       Lift = lft, Date = '''', Equipment = ''Bare'', Record_Type = '''',
       Record_Name = '''', Location = ''Manchester Open'', Sex = ''M'' \<rparr>"

definition all_filters :: "string \<Rightarrow> filters" where
  "all_filters s = \<lparr> sex = ''All'', division = ''All'', testing_status = ''All'',
                     equipment = ''All'', weight_class = ''All'', search = s \<rparr>"

definition junior_110 :: row where
  "junior_110 = (lift_row ''Ann'' 200 ''110'' ''Squat'')\<lparr> Division_base := ''Junior'' \<rparr>"

definition opens_110 :: row where
  "opens_110 = lift_row ''Bob'' 210 ''110'' ''Squat''"

definition strict_filters :: "string \<Rightarrow> filters" where
  "strict_filters s = \<lparr> sex = ''F'', division = ''T14-15'', testing_status = ''Drug Tested'',
                        equipment = ''Equipped'', weight_class = ''52'', search = s \<rparr>"

definition lifts_sample :: "row list" where
  "lifts_sample =
     [lift_row ''Ann'' 200 ''100'' ''Squat'', lift_row ''Bob'' 205 ''100'' ''Squat'',
      lift_row ''Cy'' 205 ''100'' ''Squat'', lift_row ''Di'' 150 ''90'' ''Bench'',
      lift_row ''Ed'' 300 ''SHW'' ''Total'', lift_row ''Flo'' 120 ''90'' ''Strict Curl'',
      lift_row ''Gus'' 140 ''90'' ''Squat'']"

definition lifts_best :: "row list" where
  "lifts_best =
     [lift_row ''Gus'' 140 ''90'' ''Squat'', lift_row ''Di'' 150 ''90'' ''Bench'',
      lift_row ''Flo'' 120 ''90'' ''Strict Curl'', lift_row ''Cy'' 205 ''100'' ''Squat'',
      lift_row ''Ed'' 300 ''SHW'' ''Total'']"

definition ties_sample :: "row list" where
  "ties_sample =
     [lift_row ''Al'' 100 ''90'' ''Squat'', lift_row ''Bea'' 100 ''90'' ''Bench'',
      lift_row ''Cat'' 120 ''100'' ''Axle'', lift_row ''Dan'' 120 ''100'' ''Log'']"

definition ties_once :: "row list" where
  "ties_once =
     [lift_row ''Al'' 100 ''90'' ''Squat'', lift_row ''Bea'' 100 ''90'' ''Bench'',
      lift_row ''Dan'' 120 ''100'' ''Log'', lift_row ''Cat'' 120 ''100'' ''Axle'']"

section \<open>The normaliser\<close>

lemmas example_eval =
  load_data_def normalize_row_def csv_line_def fillna_def astype_str_def strip_def is_space_def
  replace_DT_end_def testing_of_def endswith_def replace_lift_def LIFT_MAP_def
  INVALID_WEIGHT_CLASSES_def to_numeric_dec_def is_digit_def digits_val_def

lemma load_data_rows:
  "r' \<in> set (load_data tn df) \<Longrightarrow>
     \<exists>r \<in> set df. r' = normalize_row tn r \<and> csv_Full_Name r \<noteq> None \<and> csv_Weight r \<noteq> None"
  by (auto simp: load_data_def)

lemma load_data_class: "r \<in> set (load_data tn df) \<Longrightarrow> Class r \<notin> INVALID_WEIGHT_CLASSES"
  by (simp add: load_data_def)

subsection \<open>Weights that do not parse\<close>

text \<open>
  C1. The claim: every record that \<open>load_data\<close> keeps has a numeric weight, and a row
  whose weight does not parse as a number is dropped. The program filters on a present
  weight (line 28) before it converts the column (line 29), so the NaN that the
  conversion writes is never filtered, and the final \<open>fillna("")\<close> turns it into the
  empty string. On a frame of two rows, the first with the weight text \<open>abc\<close>, both
  rows are kept, the first with a weight that is no number; sorting the result by
  weight, as the reducer does, then raises.
\<close>

theorem unparsed_weight_retained:
  "map Full_Name (load_data to_numeric_dec csv_bad_weight) = [''Ann'', ''Bob'']
   \<and> map Weight (load_data to_numeric_dec csv_bad_weight) = [Blank, Num 200]
   \<and> best_per_class_and_lift argsort_ties_reversed to_numeric_dec
         (load_data to_numeric_dec csv_bad_weight) = Inl TypeError"
  by code_simp

subsection \<open>Division and testing status\<close>

lemma strip_last_not_space: "strip s \<noteq> [] \<Longrightarrow> \<not> is_space (last (strip s))"
proof -
  assume ne: "strip s \<noteq> []"
  let ?t = "rev (dropWhile is_space s)"
  from ne have d: "dropWhile is_space ?t \<noteq> []" by (simp add: strip_def)
  have "last (strip s) = hd (dropWhile is_space ?t)"
    using d by (simp add: strip_def last_rev)
  moreover have "\<not> is_space (hd (dropWhile is_space ?t))"
    using d by (rule hd_dropWhile)
  ultimately show ?thesis by simp
qed

lemma endswith_last: "endswith s suf \<Longrightarrow> suf \<noteq> [] \<Longrightarrow> s \<noteq> [] \<and> last s = last suf"
proof -
  assume e: "endswith s suf" and n: "suf \<noteq> []"
  from e have l: "length suf \<le> length s" and d: "drop (length s - length suf) s = suf"
    by (simp_all add: endswith_def)
  from l n have sn: "s \<noteq> []" by auto
  from n d have "last (drop (length s - length suf) s) = last suf" by simp
  moreover have "length s - length suf < length s" using l n sn by (cases suf) auto
  ultimately have "last s = last suf" by (simp add: last_drop)
  with sn show ?thesis by simp
qed

text \<open>A trimmed text never ends in a newline, so \<open>$\<close> can only match at its very end.\<close>

lemma strip_not_DT_newline: "\<not> endswith (strip s) [CHR ''D'', CHR ''T'', CHR 0x0A]"
proof
  assume "endswith (strip s) [CHR ''D'', CHR ''T'', CHR 0x0A]"
  then have "strip s \<noteq> [] \<and> last (strip s) = CHR 0x0A"
    using endswith_last by fastforce
  then show False using strip_last_not_space [of s] by (simp add: is_space_def)
qed

lemma endswith_take_append: "endswith s suf \<Longrightarrow> take (length s - length suf) s @ suf = s"
  by (metis append_take_drop_id endswith_def)

lemma division_reconstruct:
  "replace_DT_end (strip d) @ (if testing_of (strip d) = ''Drug Tested'' then ''DT'' else '''') = strip d"
proof (cases "endswith (strip d) ''DT''")
  case True
  then show ?thesis
    using endswith_take_append [OF True]
    by (simp add: replace_DT_end_def testing_of_def numeral_2_eq_2)
next
  case False
  then show ?thesis
    by (simp add: replace_DT_end_def testing_of_def strip_not_DT_newline)
qed

lemma normalize_row_reconstruct:
  "Division_base (normalize_row tn r) @ (if Testing (normalize_row tn r) = ''Drug Tested'' then ''DT'' else '''')
     = Division_raw (normalize_row tn r)"
proof (cases "csv_Division r")
  case None
  then show ?thesis by (simp add: normalize_row_def fillna_def)
next
  case (Some d)
  then show ?thesis using division_reconstruct [of d] by (simp add: normalize_row_def fillna_def)
qed

lemma testing_of_present_division:
  "csv_Division r = Some d \<Longrightarrow>
     Testing (normalize_row tn r) = testing_of (Division_raw (normalize_row tn r))"
  by (simp add: normalize_row_def fillna_def)

text \<open>
  C7, as stated: the testing status of every normalised record is \<open>Drug Tested\<close> or
  \<open>Untested\<close>. A row with no division refutes it: \<open>endswith\<close> and \<open>map\<close> leave the
  missing cell missing and \<open>fillna("")\<close> makes its testing status the empty string.
  (The second row of the example gives the division column a text.)
\<close>

theorem missing_division_testing_empty:
  "map csv_Division csv_no_division = [None, Some ''Opens'']
   \<and> map Full_Name (load_data to_numeric_dec csv_no_division) = [''Cy'', ''Di'']
   \<and> map Testing (load_data to_numeric_dec csv_no_division) = ['''', ''Untested'']"
  by code_simp

text \<open>
  C7, amended: for every normalised record whose division is not empty (the source
  row has a division), the testing status is \<open>Drug Tested\<close> or \<open>Untested\<close>, and it is
  \<open>Drug Tested\<close> exactly when \<open>Division_raw\<close> ends with \<open>DT\<close>.
\<close>

theorem testing_status_of_present_division:
  "\<forall>r \<in> set (load_data tn df). Division r \<noteq> '''' \<longrightarrow>
     (Testing r = ''Drug Tested'' \<or> Testing r = ''Untested'')
     \<and> Testing r = (if endswith (Division_raw r) ''DT'' then ''Drug Tested'' else ''Untested'')"
proof
  fix r' assume "r' \<in> set (load_data tn df)"
  then obtain r where r: "r' = normalize_row tn r" using load_data_rows by blast
  show "Division r' \<noteq> '''' \<longrightarrow>
     (Testing r' = ''Drug Tested'' \<or> Testing r' = ''Untested'')
     \<and> Testing r' = (if endswith (Division_raw r') ''DT'' then ''Drug Tested'' else ''Untested'')"
  proof
    assume "Division r' \<noteq> ''''"
    then obtain d where "csv_Division r = Some d"
      using r by (cases "csv_Division r") (simp_all add: normalize_row_def fillna_def)
    then have "Testing r' = testing_of (Division_raw r')"
      using r testing_of_present_division by simp
    then show "(Testing r' = ''Drug Tested'' \<or> Testing r' = ''Untested'')
     \<and> Testing r' = (if endswith (Division_raw r') ''DT'' then ''Drug Tested'' else ''Untested'')"
      by (simp add: testing_of_def)
  qed
qed

theorem testing_status_of_present_division_witness:
  "map Division (load_data to_numeric_dec csv_sample) = [''OpensDT'', '' Junior '']
   \<and> map Division_raw (load_data to_numeric_dec csv_sample) = [''OpensDT'', ''Junior'']
   \<and> map Testing (load_data to_numeric_dec csv_sample) = [''Drug Tested'', ''Untested'']"
  using testing_status_of_present_division [of to_numeric_dec csv_sample]
  by (simp add: csv_sample_def example_eval)

text \<open>
  C8. For every normalised record, \<open>Division_base\<close> followed by \<open>DT\<close> when the testing
  status is \<open>Drug Tested\<close>, and by nothing otherwise, is \<open>Division_raw\<close>.
\<close>

theorem division_base_reconstructs_raw:
  "\<forall>r \<in> set (load_data tn df).
     Division_base r @ (if Testing r = ''Drug Tested'' then ''DT'' else '''') = Division_raw r"
  using load_data_rows normalize_row_reconstruct by blast

theorem division_base_reconstructs_raw_witness:
  "map Division_base (load_data to_numeric_dec csv_sample) = [''Opens'', ''Junior'']
   \<and> map Testing (load_data to_numeric_dec csv_sample) = [''Drug Tested'', ''Untested'']
   \<and> map Division_raw (load_data to_numeric_dec csv_sample) = [''OpensDT'', ''Junior'']
   \<and> ''Opens'' @ ''DT'' = ''OpensDT''"
  using division_base_reconstructs_raw [of to_numeric_dec csv_sample]
  by (simp add: csv_sample_def example_eval)

section \<open>The filter resolver\<close>

lemma term_mask_fields: "term_mask m r = (\<exists>f \<in> set (search_fields r). m (lower f))"
  by (auto simp: term_mask_def search_fields_def)

lemma search_terms_literal:
  assumes "\<And>p. \<forall>c \<in> set p. \<not> is_meta c \<Longrightarrow> \<exists>m. rc p = Some m \<and> (\<forall>s. m s = is_substring p s)"
      and "\<forall>t \<in> set ts. \<forall>c \<in> set t. \<not> is_meta c"
  shows "search_terms rc ts df =
           Inr (filter (\<lambda>r. \<forall>t \<in> set ts. \<exists>f \<in> set (search_fields r). is_substring t (lower f)) df)"
  using assms(2)
proof (induction ts arbitrary: df)
  case Nil
  then show ?case by simp
next
  case (Cons t ts)
  from Cons.prems have "\<forall>c \<in> set t. \<not> is_meta c" by simp
  then obtain m where m: "rc t = Some m" "\<forall>s. m s = is_substring t s"
    using assms(1) by blast
  have mask: "term_mask m = (\<lambda>r. \<exists>f \<in> set (search_fields r). is_substring t (lower f))"
    using m(2) by (simp add: term_mask_fields fun_eq_iff)
  from Cons.prems have "\<forall>t \<in> set ts. \<forall>c \<in> set t. \<not> is_meta c" by simp
  then show ?case
    using Cons.IH m(1) by (simp add: mask conj_commute)
qed

lemma search_terms_subset: "search_terms rc ts df = Inr out \<Longrightarrow> set out \<subseteq> set df"
proof (induction ts arbitrary: df)
  case Nil
  then show ?case by simp
next
  case (Cons t ts)
  then show ?case by (fastforce split: option.splits)
qed

lemma render_filters_subset:
  "render_filters rc df sel = Inr (out, sel') \<Longrightarrow> set out \<subseteq> set df"
  unfolding render_filters_def Let_def
  by (auto split: if_splits sum.splits dest: search_terms_subset)

text \<open>On a pattern with no special character the example interpretation is substring search.\<close>

lemma match_here_literal:
  "\<forall>c \<in> set p. \<not> is_meta c \<Longrightarrow> match_here p s = (take (length p) s = p)"
proof (induction p s rule: match_here.induct)
  case (1 s)
  then show ?case by simp
next
  case (2 p ps)
  then show ?case by simp
next
  case (3 p ps c cs)
  then have "p \<noteq> CHR ''.''" by (auto simp: is_meta_def)
  with 3 show ?case by auto
qed

lemma search_dot_literal:
  "\<forall>c \<in> set p. \<not> is_meta c \<Longrightarrow> search_dot p s = is_substring p s"
proof (induction s)
  case Nil
  then show ?case by (cases p) simp_all
next
  case (Cons c cs)
  then show ?case by (simp add: match_here_literal)
qed

lemma re_compile_dot_literal:
  "\<forall>c \<in> set p. \<not> is_meta c \<Longrightarrow> \<exists>m. re_compile_dot p = Some m \<and> (\<forall>s. m s = is_substring p s)"
  by (auto simp: re_compile_dot_def search_dot_literal)

lemma lower_space: "is_space c \<Longrightarrow> lower_char c = c"
proof -
  assume "is_space c"
  then have le: "of_char c \<le> (32::nat)" by (auto simp: is_space_def)
  have "c \<notin> set ''ABCDEFGHIJKLMNOPQRSTUVWXYZ''"
  proof
    assume "c \<in> set ''ABCDEFGHIJKLMNOPQRSTUVWXYZ''"
    then have "(65::nat) \<le> of_char c" by auto
    with le show False by simp
  qed
  then have "map_of (zip ''ABCDEFGHIJKLMNOPQRSTUVWXYZ'' ''abcdefghijklmnopqrstuvwxyz'') c = None"
    by (subst map_of_zip_is_None) simp_all
  then show ?thesis by (simp add: lower_char_def)
qed

lemma split_ws_spaces: "\<forall>c \<in> set s. is_space c \<Longrightarrow> split_ws (lower s) = []"
  by (induction s) (simp_all add: lower_def lower_space)

subsection \<open>Search takes precedence over the structured filters\<close>

text \<open>
  C3. With a non-empty search string \<open>S\<close>, the rows that \<open>render_filters\<close> returns
  are the same under any two settings \<open>F1\<close> and \<open>F2\<close> of the five structured filters
  (also when the search raises: it then raises under both).
\<close>

theorem search_ignores_structured_filters:
  "S \<noteq> [] \<Longrightarrow>
     filtered_rows (render_filters rc df (F1\<lparr> search := S \<rparr>))
       = filtered_rows (render_filters rc df (F2\<lparr> search := S \<rparr>))"
  by (simp add: render_filters_def filtered_rows_def split: sum.splits)

theorem search_ignores_structured_filters_witness:
  "''ann'' \<noteq> ''''
   \<and> filtered_rows (render_filters re_compile_dot [junior_110, opens_110] ((all_filters '''')\<lparr> search := ''ann'' \<rparr>))
       = Inr [junior_110]
   \<and> filtered_rows (render_filters re_compile_dot [junior_110, opens_110] ((strict_filters '''')\<lparr> search := ''ann'' \<rparr>))
       = Inr [junior_110]"
proof -
  have ne: "''ann'' \<noteq> ''''" by simp
  have "filtered_rows (render_filters re_compile_dot [junior_110, opens_110] ((all_filters '''')\<lparr> search := ''ann'' \<rparr>))
       = Inr [junior_110]"
    by code_simp
  then show ?thesis
    using search_ignores_structured_filters
      [OF ne, of re_compile_dot "[junior_110, opens_110]" "all_filters ''''" "strict_filters ''''"]
    by simp
qed

text \<open>
  C10. A search string that is not empty and holds only whitespace has no term: the
  search branch is taken, the whole frame is returned in its order, and the five
  structured filters, whatever they are set to, are not applied.
\<close>

theorem whitespace_search_returns_all:
  "S \<noteq> [] \<Longrightarrow> \<forall>c \<in> set S. is_space c \<Longrightarrow>
     render_filters rc df (F\<lparr> search := S \<rparr>) = Inr (df, F\<lparr> search := S \<rparr>)"
  by (simp add: render_filters_def split_ws_spaces)

theorem whitespace_search_returns_all_witness:
  "''  '' \<noteq> ''''
   \<and> render_filters re_compile_dot [junior_110, opens_110] ((strict_filters '''')\<lparr> search := ''  '' \<rparr>)
       = Inr ([junior_110, opens_110], (strict_filters '''')\<lparr> search := ''  '' \<rparr>)"
proof -
  have ne: "''  '' \<noteq> ''''" by simp
  have sp: "\<forall>c \<in> set ''  ''. is_space c" by (simp add: is_space_def)
  show ?thesis
    using whitespace_search_returns_all [OF ne sp, of re_compile_dot "[junior_110, opens_110]" "strict_filters ''''"]
    by simp
qed

subsection \<open>What a search term matches\<close>

text \<open>
  C4, as stated: a record is in the search result exactly when every term is a
  substring of one of its seven fields. \<open>str.contains\<close> reads the term as a regular
  expression. The term \<open>1.0\<close> matches the weight class \<open>110\<close>, the dot standing for
  the middle character, although \<open>1.0\<close> is a substring of none of the record's fields.
\<close>

theorem dot_term_matches_without_substring:
  "filtered_rows (render_filters re_compile_dot [opens_110] (all_filters ''1.0'')) = Inr [opens_110]
   \<and> split_ws (lower ''1.0'') = [''1.0'']
   \<and> map (is_substring ''1.0'') (map lower (search_fields opens_110))
       = [False, False, False, False, False, False, False]"
  by code_simp

text \<open>
  C4, amended: when no term of the search string holds a special character of regular
  expressions (and a pattern without one is compiled to substring search), the search
  returns, in their order, exactly the records for which every whitespace-delimited
  lowercased term is a substring of the lowercased text of at least one of the seven
  fields name, record name, weight class, base division, equipment, testing status and
  location.
\<close>

theorem search_matches_every_literal_term:
  assumes "\<And>p. \<forall>c \<in> set p. \<not> is_meta c \<Longrightarrow> \<exists>m. rc p = Some m \<and> (\<forall>s. m s = is_substring p s)"
      and "search sel \<noteq> []"
      and "\<forall>t \<in> set (split_ws (lower (search sel))). \<forall>c \<in> set t. \<not> is_meta c"
  shows "render_filters rc df sel =
           Inr (filter (\<lambda>r. \<forall>t \<in> set (split_ws (lower (search sel))).
                          \<exists>f \<in> set (search_fields r). is_substring t (lower f)) df, sel)"
  using search_terms_literal [of rc "split_ws (lower (search sel))" df, OF assms(1) assms(3)] assms(2)
  by (simp add: render_filters_def)

lemma example_terms:
  "split_ws (lower ''110 Junior manchester'') = [''110'', ''junior'', ''manchester'']"
  by code_simp

lemma example_terms_literal:
  "\<forall>t \<in> set [''110'', ''junior'', ''manchester'']. \<forall>c \<in> set t. \<not> is_meta c"
  by code_simp

lemma junior_110_matches:
  "\<forall>t \<in> set [''110'', ''junior'', ''manchester''].
     \<exists>f \<in> set (search_fields junior_110). is_substring t (lower f)"
  by code_simp

lemma opens_110_fails:
  "\<not> (\<forall>t \<in> set [''110'', ''junior'', ''manchester''].
     \<exists>f \<in> set (search_fields opens_110). is_substring t (lower f))"
  by code_simp

theorem search_matches_every_literal_term_witness:
  "search (all_filters ''110 Junior manchester'') \<noteq> []
   \<and> split_ws (lower (search (all_filters ''110 Junior manchester''))) = [''110'', ''junior'', ''manchester'']
   \<and> render_filters re_compile_dot [junior_110, opens_110] (all_filters ''110 Junior manchester'')
       = Inr ([junior_110], all_filters ''110 Junior manchester'')"
proof -
  let ?sel = "all_filters ''110 Junior manchester''"
  have s: "search ?sel = ''110 Junior manchester''" by (simp add: all_filters_def)
  have "render_filters re_compile_dot [junior_110, opens_110] ?sel =
          Inr (filter (\<lambda>r. \<forall>t \<in> set (split_ws (lower (search ?sel))).
                 \<exists>f \<in> set (search_fields r). is_substring t (lower f)) [junior_110, opens_110], ?sel)"
    using example_terms_literal
    by (intro search_matches_every_literal_term re_compile_dot_literal)
       (simp_all only: s example_terms, simp_all)
  then show ?thesis
    using junior_110_matches opens_110_fails by (simp only: s example_terms filter.simps if_True if_False, simp)
qed

section \<open>The record reducer\<close>

subsection \<open>Dropping duplicates\<close>

lemma set_drop_duplicates: "set (drop_duplicates xs) \<subseteq> set xs"
  by (induction xs rule: drop_duplicates.induct) auto

lemma drop_duplicates_filter:
  "filter (\<lambda>r. class_lift r = p) (drop_duplicates xs) = take 1 (filter (\<lambda>r. class_lift r = p) xs)"
proof (induction xs rule: drop_duplicates.induct)
  case 1
  then show ?case by simp
next
  case (2 r rs)
  show ?case
  proof (cases "class_lift r = p")
    case True
    have "filter (\<lambda>s. class_lift s = p) (filter (\<lambda>s. class_lift s \<noteq> class_lift r) rs) = []"
      using True by (simp add: filter_empty_conv)
    with 2 True show ?thesis by simp
  next
    case False
    have "filter (\<lambda>s. class_lift s = p) (filter (\<lambda>s. class_lift s \<noteq> class_lift r) rs)
            = filter (\<lambda>s. class_lift s = p) rs"
      using False by (auto intro: filter_cong)
    with 2 False show ?thesis by simp
  qed
qed

lemma drop_duplicates_sorted_wrt:
  "sorted_wrt R xs \<Longrightarrow> sorted_wrt R (drop_duplicates xs)"
proof (induction xs rule: drop_duplicates.induct)
  case 1
  then show ?case by simp
next
  case (2 r rs)
  from "2.prems" have r: "\<forall>s \<in> set rs. R r s" and rs: "sorted_wrt R rs" by simp_all
  have "sorted_wrt R (filter (\<lambda>s. class_lift s \<noteq> class_lift r) rs)"
    using rs by (rule sorted_wrt_filter)
  then have "sorted_wrt R (drop_duplicates (filter (\<lambda>s. class_lift s \<noteq> class_lift r) rs))"
    by (rule "2.IH")
  moreover have "\<forall>s \<in> set (drop_duplicates (filter (\<lambda>s. class_lift s \<noteq> class_lift r) rs)). R r s"
    using r set_drop_duplicates by fastforce
  ultimately show ?case by simp
qed

lemma drop_duplicates_distinct: "distinct (map class_lift (drop_duplicates xs))"
proof (induction xs rule: drop_duplicates.induct)
  case 1
  then show ?case by simp
next
  case (2 r rs)
  have "class_lift r \<notin> class_lift ` set (drop_duplicates (filter (\<lambda>s. class_lift s \<noteq> class_lift r) rs))"
    using set_drop_duplicates [of "filter (\<lambda>s. class_lift s \<noteq> class_lift r) rs"] by auto
  with 2 show ?case by simp
qed

lemma drop_duplicates_id: "distinct (map class_lift xs) \<Longrightarrow> drop_duplicates xs = xs"
proof (induction xs)
  case Nil
  then show ?case by simp
next
  case (Cons r rs)
  then have "class_lift r \<notin> class_lift ` set rs" by simp
  then have "\<forall>s \<in> set rs. class_lift s \<noteq> class_lift r" by (metis imageI)
  then have "filter (\<lambda>s. class_lift s \<noteq> class_lift r) rs = rs"
    by (simp add: filter_id_conv)
  with Cons show ?case by simp
qed

subsection \<open>The descending sort\<close>

lemma argsort_ties_reversed_ok: "argsort_ok argsort_ties_reversed"
  unfolding argsort_ok_def
proof (intro allI conjI)
  fix ks :: "rat list"
  let ?ps = "sort_key fst (rev (zip ks [0..<length ks]))"
  have "map snd (zip ks [0..<length ks]) = [0..<length ks]"
    by (rule map_snd_zip) simp
  moreover have "mset (map snd ?ps) = mset (map snd (zip ks [0..<length ks]))"
    by (simp only: mset_map mset_sort mset_rev)
  ultimately show "mset (argsort_ties_reversed ks) = mset [0..<length ks]"
    by (simp only: argsort_ties_reversed_def)
  have "\<forall>p \<in> set ?ps. ks ! snd p = fst p"
    by (auto simp: in_set_zip)
  then have eq: "map ((!) ks) (map snd ?ps) = map fst ?ps" by simp
  have "sorted (map fst ?ps)" by simp
  then show "sorted (map ((!) ks) (argsort_ties_reversed ks))"
    by (simp only: argsort_ties_reversed_def eq)
qed

lemma sort_desc_subset: "sort_desc argsort f xs = Inr ys \<Longrightarrow> set ys \<subseteq> set xs"
proof -
  assume a: "sort_desc argsort f xs = Inr ys"
  let ?idx = "argsort (map f (rev xs))"
  from a have rng: "list_all (\<lambda>i. i < length (rev xs)) ?idx"
    and ys: "ys = rev (map ((!) (rev xs)) ?idx)"
    by (auto simp: sort_desc_def Let_def split: if_splits)
  from rng have "\<forall>i \<in> set ?idx. i < length (rev xs)"
    by (simp add: list_all_iff)
  then have "\<forall>i \<in> set ?idx. rev xs ! i \<in> set (rev xs)"
    using nth_mem by blast
  then have "set (map ((!) (rev xs)) ?idx) \<subseteq> set xs" by auto
  with ys show ?thesis by simp
qed

lemma sort_desc_ok:
  assumes "argsort_ok argsort"
  shows "\<exists>ys. sort_desc argsort f xs = Inr ys \<and> mset ys = mset xs
              \<and> sorted_wrt (\<lambda>a b. f b \<le> f a) ys"
proof -
  let ?items = "rev xs"
  let ?ks = "map f ?items"
  let ?idx = "argsort ?ks"
  let ?rows = "map ((!) ?items) ?idx"
  from assms have perm: "mset ?idx = mset [0..<length ?ks]"
    and srt: "sorted (map ((!) ?ks) ?idx)"
    by (simp_all add: argsort_ok_def)
  from perm have "set ?idx = set [0..<length ?ks]" by (rule mset_eq_setD)
  then have rng: "\<forall>i \<in> set ?idx. i < length ?items" by simp
  then have res: "sort_desc argsort f xs = Inr (rev ?rows)"
    by (simp add: sort_desc_def Let_def list_all_iff)
  have "mset ?rows = image_mset ((!) ?items) (mset ?idx)" by simp
  also have "\<dots> = image_mset ((!) ?items) (mset [0..<length ?items])"
    using perm by simp
  also have "\<dots> = mset (map ((!) ?items) [0..<length ?items])" by simp
  also have "\<dots> = mset ?items" by (simp only: map_nth)
  finally have ms: "mset (rev ?rows) = mset xs" by simp
  have eq: "map f ?rows = map ((!) ?ks) ?idx"
    using rng by simp
  from srt have "sorted (map f ?rows)" by (simp only: eq)
  then have "sorted_wrt (\<lambda>a b. f a \<le> f b) ?rows" by (simp only: sorted_map)
  then have "sorted_wrt (\<lambda>a b. f b \<le> f a) (rev ?rows)" by (simp only: sorted_wrt_rev)
  with res ms show ?thesis by blast
qed

lemma sorted_desc_unique:
  fixes f :: "'a \<Rightarrow> rat"
  assumes ms: "mset xs = mset ys"
      and sx: "sorted_wrt (\<lambda>a b. f b \<le> f a) xs"
      and sy: "sorted_wrt (\<lambda>a b. f b \<le> f a) ys"
      and inj: "inj_on f (set xs)"
      and dx: "distinct xs"
  shows "xs = ys"
proof -
  from ms have st: "set ys = set xs" by (metis mset_eq_setD)
  from ms dx have dy: "distinct ys" by (metis mset_eq_imp_distinct_iff)
  have "sorted (map f (rev xs))" using sx by (simp add: sorted_map sorted_wrt_rev)
  moreover have "distinct (map f (rev xs))" using dx inj by (simp add: distinct_map)
  moreover have "sorted (map f (rev ys))" using sy by (simp add: sorted_map sorted_wrt_rev)
  moreover have "distinct (map f (rev ys))" using dy inj st by (simp add: distinct_map)
  moreover have "set (map f (rev xs)) = set (map f (rev ys))" using st by simp
  ultimately have "map f (rev xs) = map f (rev ys)" by (rule sorted_distinct_set_unique)
  moreover have "inj_on f (set (rev xs) \<union> set (rev ys))" using inj st by simp
  ultimately have "rev xs = rev ys" by (simp add: inj_on_map_eq_map)
  then show ?thesis by simp
qed

subsection \<open>The reducer on numeric weights\<close>

lemma best_numeric:
  assumes "argsort_ok argsort" and "\<forall>r \<in> set df. Weight r \<noteq> Blank"
  shows "\<exists>sd. mset sd = mset df
            \<and> sorted_wrt (\<lambda>a b. weight_val (Weight b) \<le> weight_val (Weight a)) sd
            \<and> best_per_class_and_lift argsort tn df
                 = Inr (sort_key (sort_columns tn) (drop_duplicates sd))"
  using sort_desc_ok [OF assms(1), of "\<lambda>r. weight_val (Weight r)" df] assms(2)
  by (auto simp: best_per_class_and_lift_def sort_values_Weight_desc_def)

lemma best_subset: "best_per_class_and_lift argsort tn df = Inr out \<Longrightarrow> set out \<subseteq> set df"
proof -
  assume "best_per_class_and_lift argsort tn df = Inr out"
  then obtain sd where sd: "sort_desc argsort (\<lambda>r. weight_val (Weight r)) df = Inr sd"
    and out: "out = sort_key (sort_columns tn) (drop_duplicates sd)"
    by (auto simp: best_per_class_and_lift_def sort_values_Weight_desc_def
             split: if_splits sum.splits)
  from sd have "set sd \<subseteq> set df" by (rule sort_desc_subset)
  with out show ?thesis using set_drop_duplicates [of sd] by auto
qed

lemma sort_key_short: "length xs \<le> 1 \<Longrightarrow> sort_key k xs = xs"
  by (cases xs) simp_all

lemma best_group:
  "filter (\<lambda>r. class_lift r = p) (sort_key k (drop_duplicates xs))
     = take 1 (filter (\<lambda>r. class_lift r = p) xs)"
proof -
  let ?P = "\<lambda>r. class_lift r = p"
  have "filter ?P (sort_key k (drop_duplicates xs)) = sort_key k (filter ?P (drop_duplicates xs))"
    by (rule filter_sort)
  also have "\<dots> = sort_key k (take 1 (filter ?P xs))"
    by (simp only: drop_duplicates_filter)
  also have "\<dots> = take 1 (filter ?P xs)"
    by (rule sort_key_short) simp
  finally show ?thesis .
qed

lemma weight_val_eq:
  "Weight s \<noteq> Blank \<Longrightarrow> Weight r \<noteq> Blank \<Longrightarrow>
     (weight_val (Weight s) = weight_val (Weight r)) = (Weight s = Weight r)"
  by (cases "Weight s"; cases "Weight r") simp_all

lemma lifts_sample_best:
  "best_per_class_and_lift argsort_ties_reversed to_numeric_dec lifts_sample = Inr lifts_best"
  by code_simp

lemma lifts_sample_weights:
  "map Weight lifts_sample = [Num 200, Num 205, Num 205, Num 150, Num 300, Num 120, Num 140]"
  by (simp add: lifts_sample_def lift_row_def)

lemma lifts_sample_numeric: "\<forall>r \<in> set lifts_sample. Weight r \<noteq> Blank"
  by (simp add: lifts_sample_def lift_row_def)

subsection \<open>One record for every class and lift\<close>

text \<open>
  C2, as stated: of several records of a group that tie at the greatest weight, the
  one that comes first in the input is selected. The sort by weight is of numpy's
  default kind, which does not keep equal keys in order. In the example Bob and Cy,
  second and third in the input, tie at 205 for class 100 and squat; with an
  \<open>argsort\<close> that puts the later of two equal keys first, Cy is selected.
\<close>

theorem tie_selects_later_record:
  "map Full_Name lifts_sample = [''Ann'', ''Bob'', ''Cy'', ''Di'', ''Ed'', ''Flo'', ''Gus'']
   \<and> map Weight lifts_sample = [Num 200, Num 205, Num 205, Num 150, Num 300, Num 120, Num 140]
   \<and> map class_lift (take 3 lifts_sample)
       = [(''100'', ''Squat''), (''100'', ''Squat''), (''100'', ''Squat'')]
   \<and> best_per_class_and_lift argsort_ties_reversed to_numeric_dec lifts_sample = Inr lifts_best
   \<and> map Full_Name lifts_best = [''Gus'', ''Di'', ''Flo'', ''Cy'', ''Ed'']"
  by code_simp

text \<open>
  C2, amended: on a frame of numeric weights the reducer returns, for every pair of
  class and lift in the input, exactly one record and for every other pair none; the
  record is a record of the input that has the greatest weight of its pair. (Which of
  several records that tie at the greatest weight is selected is left to the sort.)
\<close>

theorem best_record_per_class_and_lift:
  assumes ok: "argsort_ok argsort"
      and num: "\<forall>r \<in> set df. Weight r \<noteq> Blank"
  shows "\<exists>out. best_per_class_and_lift argsort tn df = Inr out
     \<and> (\<forall>p. length (filter (\<lambda>r. class_lift r = p) out) = (if p \<in> class_lift ` set df then 1 else 0))
     \<and> (\<forall>r \<in> set out. r \<in> set df
           \<and> (\<forall>s \<in> set df. class_lift s = class_lift r \<longrightarrow> weight_val (Weight s) \<le> weight_val (Weight r)))"
proof -
  let ?w = "\<lambda>r. weight_val (Weight r)"
  from best_numeric [OF ok num, of tn] obtain sd
    where ms: "mset sd = mset df"
      and desc: "sorted_wrt (\<lambda>a b. ?w b \<le> ?w a) sd"
      and res: "best_per_class_and_lift argsort tn df
                  = Inr (sort_key (sort_columns tn) (drop_duplicates sd))"
    by blast
  let ?out = "sort_key (sort_columns tn) (drop_duplicates sd)"
  let ?g = "\<lambda>p. filter (\<lambda>r. class_lift r = p) sd"
  from ms have st: "set sd = set df" by (rule mset_eq_setD)
  have grp: "\<And>p. filter (\<lambda>r. class_lift r = p) ?out = take 1 (?g p)"
    by (rule best_group)
  have one: "\<forall>p. length (filter (\<lambda>r. class_lift r = p) ?out) = (if p \<in> class_lift ` set df then 1 else 0)"
  proof
    fix p
    have "(?g p = []) = (p \<notin> class_lift ` set df)"
      using st by (auto simp: filter_empty_conv)
    then show "length (filter (\<lambda>r. class_lift r = p) ?out) = (if p \<in> class_lift ` set df then 1 else 0)"
      by (cases "?g p") (simp_all add: grp)
  qed
  have sel: "\<forall>r \<in> set ?out. r \<in> set df
           \<and> (\<forall>s \<in> set df. class_lift s = class_lift r \<longrightarrow> ?w s \<le> ?w r)"
  proof
    fix r assume r: "r \<in> set ?out"
    let ?p = "class_lift r"
    from r have "r \<in> set (filter (\<lambda>s. class_lift s = ?p) ?out)" by simp
    then have "r \<in> set (take 1 (?g ?p))" by (simp only: grp)
    then obtain rest where g: "?g ?p = r # rest" by (cases "?g ?p") simp_all
    have "r \<in> set (?g ?p)" by (simp only: g) simp
    then have in_df: "r \<in> set df" using st by simp
    have "sorted_wrt (\<lambda>a b. ?w b \<le> ?w a) (?g ?p)"
      using desc by (rule sorted_wrt_filter)
    then have hd: "\<forall>s \<in> set (?g ?p). ?w s \<le> ?w r"
      by (simp only: g) auto
    have "\<forall>s \<in> set df. class_lift s = ?p \<longrightarrow> ?w s \<le> ?w r"
    proof (intro ballI impI)
      fix s assume "s \<in> set df" and "class_lift s = ?p"
      then have "s \<in> set (?g ?p)" using st by simp
      with hd show "?w s \<le> ?w r" by blast
    qed
    with in_df show "r \<in> set df \<and> (\<forall>s \<in> set df. class_lift s = class_lift r \<longrightarrow> ?w s \<le> ?w r)"
      by simp
  qed
  show ?thesis using res one sel by blast
qed

text \<open>
  The example holds the scenario of the specification: class 100, squat, 200 listed
  before 205, and a record of weight 205 is returned.
\<close>

theorem best_record_per_class_and_lift_witness:
  "map Weight lifts_sample = [Num 200, Num 205, Num 205, Num 150, Num 300, Num 120, Num 140]
   \<and> best_per_class_and_lift argsort_ties_reversed to_numeric_dec lifts_sample = Inr lifts_best
   \<and> map Weight lifts_best = [Num 140, Num 150, Num 120, Num 205, Num 300]
   \<and> set lifts_best \<subseteq> set lifts_sample"
proof -
  from best_record_per_class_and_lift [OF argsort_ties_reversed_ok lifts_sample_numeric, of to_numeric_dec]
  have "\<forall>r \<in> set lifts_best. r \<in> set lifts_sample"
    by (simp add: lifts_sample_best)
  then have "set lifts_best \<subseteq> set lifts_sample" by blast
  moreover have "map Weight lifts_best = [Num 140, Num 150, Num 120, Num 205, Num 300]"
    by (simp add: lifts_best_def lift_row_def)
  ultimately show ?thesis
    using lifts_sample_weights lifts_sample_best by simp
qed

subsection \<open>The order of the output\<close>





subsection \<open>Reducing twice\<close>

text \<open>
  C6, as stated: the reducer applied to its own output returns it unchanged. Axle and
  Log are lifts outside the canonical four, so both rank 99; Cat and Dan lift the same
  weight in class 100. With an \<open>argsort\<close> that puts the later of two equal keys
  first, the reducer returns Dan before Cat, and applied to this output it returns
  Cat before Dan.
\<close>

theorem reducing_twice_swaps_a_tie:
  "best_per_class_and_lift argsort_ties_reversed to_numeric_dec ties_sample = Inr ties_once
   \<and> best_per_class_and_lift argsort_ties_reversed to_numeric_dec ties_once = Inr ties_sample
   \<and> map Full_Name ties_once = [''Al'', ''Bea'', ''Dan'', ''Cat'']
   \<and> map Full_Name ties_sample = [''Al'', ''Bea'', ''Cat'', ''Dan'']"
  by code_simp

text \<open>
  C6, amended: on a frame of numeric weights the reducer returns a frame, and applied
  to that frame it returns the same records, ordered by the same key; it returns the
  frame unchanged, the same records in the same order, when the frame holds no two
  records of one class and one lift rank (two lifts outside Squat, Bench, Deadlift,
  Total) that have the same weight.
\<close>

theorem best_idempotent:
  assumes ok: "argsort_ok argsort"
      and num: "\<forall>r \<in> set df. Weight r \<noteq> Blank"
  shows "\<exists>out out'. best_per_class_and_lift argsort tn df = Inr out
     \<and> best_per_class_and_lift argsort tn out = Inr out'
     \<and> mset out' = mset out
     \<and> sorted (map (sort_columns tn) out')
     \<and> ((\<forall>a \<in> set out. \<forall>b \<in> set out.
            Class a = Class b \<and> lift_order (Lift a) = lift_order (Lift b) \<and> Weight a = Weight b
              \<longrightarrow> Lift a = Lift b)
          \<longrightarrow> out' = out)"
proof -
  let ?w = "\<lambda>r. weight_val (Weight r)"
  let ?k = "sort_columns tn"
  from best_numeric [OF ok num, of tn] obtain sd
    where desc: "sorted_wrt (\<lambda>a b. ?w b \<le> ?w a) sd"
      and res: "best_per_class_and_lift argsort tn df = Inr (sort_key ?k (drop_duplicates sd))"
    by blast
  let ?dd = "drop_duplicates sd"
  let ?out = "sort_key ?k ?dd"
  have "set ?out \<subseteq> set df" using res by (rule best_subset)
  with num have num': "\<forall>r \<in> set ?out. Weight r \<noteq> Blank" by blast
  from best_numeric [OF ok num', of tn] obtain sd'
    where ms': "mset sd' = mset ?out"
      and desc': "sorted_wrt (\<lambda>a b. ?w b \<le> ?w a) sd'"
      and res': "best_per_class_and_lift argsort tn ?out = Inr (sort_key ?k (drop_duplicates sd'))"
    by blast
  have dist: "distinct (map class_lift ?out)"
  proof -
    have "mset (map class_lift ?out) = mset (map class_lift ?dd)" by simp
    then have "distinct (map class_lift ?out) = distinct (map class_lift ?dd)"
      by (rule mset_eq_imp_distinct_iff)
    then show ?thesis by (simp add: drop_duplicates_distinct)
  qed
  have "mset (map class_lift sd') = mset (map class_lift ?out)" using ms' by simp
  then have "distinct (map class_lift sd') = distinct (map class_lift ?out)"
    by (rule mset_eq_imp_distinct_iff)
  with dist have "drop_duplicates sd' = sd'" by (simp add: drop_duplicates_id)
  with res' have out': "best_per_class_and_lift argsort tn ?out = Inr (sort_key ?k sd')" by simp
  have perm: "mset (sort_key ?k sd') = mset ?out" using ms' by simp
  have srt: "sorted (map ?k (sort_key ?k sd'))" by simp
  have same: "sort_key ?k sd' = ?out"
    if cond: "\<forall>a \<in> set ?out. \<forall>b \<in> set ?out.
                Class a = Class b \<and> lift_order (Lift a) = lift_order (Lift b) \<and> Weight a = Weight b
                  \<longrightarrow> Lift a = Lift b"
  proof (rule properties_for_sort_key)
    show "mset ?out = mset sd'" using ms' by simp
    show "sorted (map ?k ?out)" by simp
    fix r assume "r \<in> set ?out"
    let ?Z = "filter (\<lambda>x. ?k r = ?k x) ?out"
    let ?Z' = "filter (\<lambda>x. ?k r = ?k x) sd'"
    have "?Z = filter (\<lambda>x. ?k x = ?k r) ?out" by (auto intro: filter_cong)
    also have "\<dots> = filter (\<lambda>x. ?k x = ?k r) ?dd" by (rule sort_key_stable)
    finally have sz: "sorted_wrt (\<lambda>a b. ?w b \<le> ?w a) ?Z"
      using desc by (simp add: drop_duplicates_sorted_wrt sorted_wrt_filter)
    have sz': "sorted_wrt (\<lambda>a b. ?w b \<le> ?w a) ?Z'"
      using desc' by (rule sorted_wrt_filter)
    have mz: "mset ?Z = mset ?Z'" using ms' by simp
    have inj_cl: "inj_on class_lift (set ?out)"
      using dist by (simp only: distinct_map)
    have "inj_on ?w (set ?Z)"
    proof (rule inj_onI)
      fix a b assume a: "a \<in> set ?Z" and b: "b \<in> set ?Z" and w: "?w a = ?w b"
      from a b have ao: "a \<in> set ?out" and bo: "b \<in> set ?out" and kk: "?k a = ?k b"
        by auto
      from kk have "Class a = Class b" and "lift_order (Lift a) = lift_order (Lift b)"
        by (simp_all add: sort_columns_def)
      moreover have "Weight a = Weight b"
        using w num' ao bo by (simp add: weight_val_eq)
      ultimately have "Lift a = Lift b" using cond ao bo by blast
      with \<open>Class a = Class b\<close> have "class_lift a = class_lift b"
        by (simp add: class_lift_def)
      with inj_cl ao bo show "a = b" by (metis inj_onD)
    qed
    moreover have "distinct ?Z"
      using dist by (simp add: distinct_map)
    ultimately show "?Z = ?Z'"
      using mz sz sz' by (intro sorted_desc_unique [where f = ?w])
  qed
  show ?thesis
    using res out' perm srt same by blast
qed

theorem best_idempotent_witness:
  "map Weight lifts_sample = [Num 200, Num 205, Num 205, Num 150, Num 300, Num 120, Num 140]
   \<and> best_per_class_and_lift argsort_ties_reversed to_numeric_dec lifts_sample = Inr lifts_best
   \<and> map Class lifts_best = [''90'', ''90'', ''90'', ''100'', ''SHW'']
   \<and> map lift_order (map Lift lifts_best) = [0, 1, 99, 0, 3]
   \<and> best_per_class_and_lift argsort_ties_reversed to_numeric_dec lifts_best = Inr lifts_best"
proof -
  have cond: "\<forall>a \<in> set lifts_best. \<forall>b \<in> set lifts_best.
            Class a = Class b \<and> lift_order (Lift a) = lift_order (Lift b) \<and> Weight a = Weight b
              \<longrightarrow> Lift a = Lift b"
    by code_simp
  from best_idempotent [OF argsort_ties_reversed_ok lifts_sample_numeric, of to_numeric_dec] cond
  have "best_per_class_and_lift argsort_ties_reversed to_numeric_dec lifts_best = Inr lifts_best"
    by (simp add: lifts_sample_best)
  moreover have "map Class lifts_best = [''90'', ''90'', ''90'', ''100'', ''SHW'']"
    by (simp add: lifts_best_def lift_row_def)
  moreover have "map lift_order (map Lift lifts_best) = [0, 1, 99, 0, 3]"
    by code_simp
  ultimately show ?thesis
    using lifts_sample_weights lifts_sample_best by simp
qed

section \<open>Invalid weight classes\<close>

lemma load_data_without_cell:
  "load_data tn (filter (\<lambda>r. strip (astype_str (csv_Class r)) \<noteq> ''cell'') df) = load_data tn df"
proof -
  have "\<And>r. Class (normalize_row tn r) = strip (astype_str (csv_Class r))"
    by (simp add: normalize_row_def Let_def)
  then have "\<And>r. Class (normalize_row tn r) \<notin> INVALID_WEIGHT_CLASSES \<Longrightarrow>
               strip (astype_str (csv_Class r)) \<noteq> ''cell''"
    by (auto simp: INVALID_WEIGHT_CLASSES_def)
  then show ?thesis
    by (auto simp: load_data_def filter_map comp_def intro!: arg_cong [where f = "map (normalize_row tn)"] filter_cong)
qed

lemma csv_sample_loaded:
  "load_data to_numeric_dec csv_sample =
     [(lift_row ''Ann'' 200 ''100'' ''Squat'')
        \<lparr> Division := ''OpensDT'', Division_raw := ''OpensDT'', Testing := ''Drug Tested'',
          Location := ''Manchester'' \<rparr>,
      (lift_row ''Di'' 205 ''100'' ''Squat'')
        \<lparr> Division := '' Junior '', Division_raw := ''Junior'', Division_base := ''Junior'',
          Location := ''Manchester'' \<rparr>]"
  by code_simp

text \<open>
  C9. No record that \<open>load_data\<close> returns has a weight class of the invalid set. The
  rows whose trimmed class text is \<open>cell\<close> contribute nothing to the normalised frame:
  it is the same with and without them. No record of class \<open>cell\<close> is among the rows
  that \<open>render_filters\<close> returns on the normalised frame, nor among those the reducer
  returns on them.
\<close>

theorem invalid_weight_class_dropped:
  "(\<forall>r \<in> set (load_data tn df). Class r \<notin> INVALID_WEIGHT_CLASSES)
   \<and> load_data tn (filter (\<lambda>r. strip (astype_str (csv_Class r)) \<noteq> ''cell'') df) = load_data tn df
   \<and> (\<forall>filtered sel'. render_filters rc (load_data tn df) sel = Inr (filtered, sel') \<longrightarrow>
         (\<forall>r \<in> set filtered. Class r \<noteq> ''cell'')
         \<and> (\<forall>best. best_per_class_and_lift argsort tn filtered = Inr best \<longrightarrow>
               (\<forall>r \<in> set best. Class r \<noteq> ''cell'')))"
proof -
  have a: "\<forall>r \<in> set (load_data tn df). Class r \<notin> INVALID_WEIGHT_CLASSES"
    by (simp add: load_data_class)
  then have b: "\<forall>r \<in> set (load_data tn df). Class r \<noteq> ''cell''"
    by (auto simp: INVALID_WEIGHT_CLASSES_def)
  have "\<And>filtered sel' best. render_filters rc (load_data tn df) sel = Inr (filtered, sel') \<Longrightarrow>
          best_per_class_and_lift argsort tn filtered = Inr best \<Longrightarrow> set best \<subseteq> set (load_data tn df)"
    using render_filters_subset best_subset by blast
  with a b show ?thesis
    using load_data_without_cell render_filters_subset by blast
qed

theorem invalid_weight_class_dropped_witness:
  "map csv_Class csv_sample = [Some ''100'', Some '' cell '', Some ''100'']
   \<and> map Class (load_data to_numeric_dec csv_sample) = [''100'', ''100'']
   \<and> filtered_rows (render_filters re_compile_dot (load_data to_numeric_dec csv_sample) (all_filters ''''))
       = Inr (load_data to_numeric_dec csv_sample)
   \<and> best_per_class_and_lift argsort_ties_reversed to_numeric_dec (load_data to_numeric_dec csv_sample)
       = Inr [last (load_data to_numeric_dec csv_sample)]"
proof -
  have "map csv_Class csv_sample = [Some ''100'', Some '' cell '', Some ''100'']"
    by (simp add: csv_sample_def csv_line_def)
  moreover have "map Class (load_data to_numeric_dec csv_sample) = [''100'', ''100'']"
    using invalid_weight_class_dropped [of to_numeric_dec csv_sample re_compile_dot "all_filters ''''" argsort_ties_reversed]
    by (simp add: csv_sample_loaded lift_row_def)
  moreover have "filtered_rows (render_filters re_compile_dot (load_data to_numeric_dec csv_sample) (all_filters ''''))
       = Inr (load_data to_numeric_dec csv_sample)"
    by (simp add: render_filters_def all_filters_def filtered_rows_def)
  moreover have "best_per_class_and_lift argsort_ties_reversed to_numeric_dec (load_data to_numeric_dec csv_sample)
       = Inr [last (load_data to_numeric_dec csv_sample)]"
    by code_simp
  ultimately show ?thesis by simp
qed

end
